theory Spec2Isabelle
  imports Main "HOL-Library.AList"
begin

section \<open>QuecThing: the pending-result queue (quecthing.py)\<close>

text \<open>
  \<^verbatim>\<open>self.__post_result_wait_queue = Queue(maxsize=16)\<close>.
  The queue of the firmware library is a FIFO: \<open>size\<close> counts the entries, \<open>get\<close> removes
  and returns the oldest one, \<open>put\<close> appends. It is modelled as a list, oldest entry first.
  \<open>put\<close> is modelled without a bound of its own, so that every bound proved below is
  the work of \<open>__put_post_res\<close>.
\<close>

type_synonym 'a queue = "'a list"

definition queue_size :: "'a queue \<Rightarrow> nat" where
  "queue_size q = length q"

definition queue_put :: "'a queue \<Rightarrow> 'a \<Rightarrow> 'a queue" where
  "queue_put q x = q @ [x]"

text \<open>\<open>get\<close> on an empty queue blocks its caller: \<open>None\<close>.\<close>

definition queue_get :: "'a queue \<Rightarrow> ('a \<times> 'a queue) option" where
  "queue_get q = (case q of [] \<Rightarrow> None | x # xs \<Rightarrow> Some (x, xs))"

text \<open>
  \<^verbatim>\<open>
  def __put_post_res(self, res):
      if self.__post_result_wait_queue.size() >= 16:
          self.__post_result_wait_queue.get()
      self.__post_result_wait_queue.put(res)
  \<close>
  The \<open>get\<close> is only reached on a queue of at least 16 entries, where it cannot block.
\<close>

definition put_post_res :: "'a queue \<Rightarrow> 'a \<Rightarrow> 'a queue" where
  "put_post_res q res =
     (let q1 = (if queue_size q \<ge> 16
                then (case queue_get q of Some (_, rest) \<Rightarrow> rest | None \<Rightarrow> q)
                else q)
      in queue_put q1 res)"

text \<open>
  The operations that reach the queue: \<open>__put_post_res\<close> (from the event callback and
  from the timer callback \<open>__quec_timer_cb\<close>, which puts \<open>False\<close>) and the \<open>get\<close> of
  \<open>__get_post_res\<close>. A \<open>get\<close> on the empty queue leaves it empty (the caller waits).
\<close>

datatype 'a buf_op = Put_res 'a | Timer_cb | Get_res

fun buf_step :: "bool queue \<Rightarrow> bool buf_op \<Rightarrow> bool queue" where
  "buf_step q (Put_res r) = put_post_res q r"
| "buf_step q Timer_cb = put_post_res q False"
| "buf_step q Get_res = (case queue_get q of None \<Rightarrow> q | Some (_, rest) \<Rightarrow> rest)"

definition buf_run :: "bool buf_op list \<Rightarrow> bool queue" where
  "buf_run ops = foldl buf_step [] ops"


section \<open>QuecThing: block transfer to the companion MCU (quecthing.py)\<close>

text \<open>
  \<open>__sota_upgrade_start(start_addr, need_download_size)\<close>. The state of the loop: the
  three counters, the log of blocks \<open>(address, size)\<close> handed to
  \<open>quecIot.mcuFWDataRead\<close> and then to \<open>write_update_data\<close>, the log of
  \<open>ota_action\<close> calls, whether the loop left through the \<open>break\<close> of the
  \<open>download_size == self.__file_size\<close> branch, and whether \<open>sota_set_flag\<close> ran.
  Python integers are unbounded: \<open>int\<close>.
\<close>

record sota_state =
  start_addr :: int
  need_download_size :: int
  download_size :: int
  blocks :: "(int \<times> int) list"
  actions :: "int list"
  file_done :: bool
  update_flag :: bool


definition ota_action_log :: "int \<Rightarrow> sota_state \<Rightarrow> sota_state" where
  "ota_action_log a s = s\<lparr>actions := actions s @ [a]\<rparr>"

definition file_complete :: "bool \<Rightarrow> bool \<Rightarrow> sota_state \<Rightarrow> sota_state" where
  "file_complete md5_ok update_ok s =
     (ota_action_log 3 s)\<lparr>update_flag := (md5_ok \<and> update_ok), file_done := True\<rparr>"



definition block_sizes :: "sota_state \<Rightarrow> int list" where
  "block_sizes s = map snd (blocks s)"

text \<open>
  The loop invariant, for a call that was given \<open>N\<close> bytes to move: the counters agree
  with the log, every logged block was cut as \<open>min 4096\<close> of what remained before it, and
  every block that is followed by more work is a full one.
\<close>

definition sota_inv :: "int \<Rightarrow> sota_state \<Rightarrow> bool" where
  "sota_inv N s \<longleftrightarrow>
     download_size s = sum_list (block_sizes s) \<and>
     need_download_size s = N - sum_list (block_sizes s) \<and>
     (\<forall>i < length (block_sizes s).
        block_sizes s ! i = min 4096 (N - sum_list (take i (block_sizes s)))) \<and>
     (\<forall>i. Suc i < length (block_sizes s) \<longrightarrow> block_sizes s ! i = 4096) \<and>
     (need_download_size s \<noteq> 0 \<longrightarrow> (\<forall>i < length (block_sizes s). block_sizes s ! i = 4096))"


section \<open>Python values\<close>

text \<open>
  The values that travel through \<open>post_data\<close>: \<open>None\<close>, booleans, integers, strings,
  lists and dictionaries with string keys (the semantic keys of the object model). A
  dictionary is an association list with distinct keys, in iteration order.
\<close>

datatype pyval =
    PNone
  | PBool bool
  | PInt int
  | PStr string
  | PList "pyval list"
  | PDict "(string \<times> pyval) list"

text \<open>\<open>not v\<close> of Python.\<close>

fun falsy :: "pyval \<Rightarrow> bool" where
  "falsy PNone = True"
| "falsy (PBool b) = (\<not> b)"
| "falsy (PInt i) = (i = 0)"
| "falsy (PStr s) = (s = [])"
| "falsy (PList xs) = (xs = [])"
| "falsy (PDict kvs) = (kvs = [])"


section \<open>QuecObjectModel (quecthing.py)\<close>

text \<open>
  The attribute \<open>items\<close> has the layout of the class docstring: per domain
  (\<open>"events"\<close>, \<open>"properties"\<close>) a dictionary from the semantic key to
  \<open>{"name", "id", "perm", "struct_info"}\<close>, where \<open>struct_info\<close> maps a field key to
  \<open>{"name", "id", "struct_info"}\<close>. \<open>items_id\<close> maps a numeric id to a semantic key.
\<close>

datatype om_type = Events | Properties

record struct_item =
  fld_name :: string
  fld_id :: int
  fld_struct :: "string list"

record om_item =
  om_name :: string
  om_id :: int
  om_perm :: string
  struct_info :: "string \<rightharpoonup> struct_item"

record object_model =
  items :: "om_type \<Rightarrow> string \<rightharpoonup> om_item"
  items_id :: "int \<rightharpoonup> string"

definition om_init :: object_model where
  "om_init = \<lparr>items = (\<lambda>_. Map.empty), items_id = Map.empty\<rparr>"

text \<open>
  Modelled from the spec: \<open>CloudObjectModel.set_item\<close> and
  \<open>CloudObjectModel.set_item_struct\<close> of \<open>usr.modules.common\<close>, the base class of
  \<open>QuecObjectModel\<close>. The spec: \<open>register(domain, key, wireId, permission)\<close>:
  insert/overwrite, last write wins; \<open>registerNestedField(domain, key, fieldKey,
  fieldWireId, fieldStruct)\<close>: attaches a field mapping, the caller must ensure the parent
  exists. The boolean is the method's result.
\<close>

definition cloud_set_item ::
  "object_model \<Rightarrow> om_type \<Rightarrow> string \<Rightarrow> int \<Rightarrow> string \<Rightarrow> bool \<times> object_model" where
  "cloud_set_item om t k i p =
     (True, om\<lparr>items := (items om)(t := (items om t)(k \<mapsto>
        \<lparr>om_name = k, om_id = i, om_perm = p, struct_info = Map.empty\<rparr>))\<rparr>)"

definition cloud_set_item_struct ::
  "object_model \<Rightarrow> om_type \<Rightarrow> string \<Rightarrow> string \<Rightarrow> int \<Rightarrow> string list \<Rightarrow> bool \<times> object_model" where
  "cloud_set_item_struct om t k sk sid sstruct =
     (case items om t k of
        None \<Rightarrow> (False, om)
      | Some it \<Rightarrow>
          (True, om\<lparr>items := (items om)(t := (items om t)(k \<mapsto>
             it\<lparr>struct_info := (struct_info it)(sk \<mapsto>
                \<lparr>fld_name = sk, fld_id = sid, fld_struct = sstruct\<rparr>)\<rparr>))\<rparr>))"

text \<open>\<open>__set_items_id\<close>: \<^verbatim>\<open>self.items_id[om_key_id] = om_key\<close>.\<close>

definition set_items_id :: "object_model \<Rightarrow> string \<Rightarrow> int \<Rightarrow> object_model" where
  "set_items_id om k i = om\<lparr>items_id := (items_id om)(i \<mapsto> k)\<rparr>"

text \<open>
  \<^verbatim>\<open>
  def set_item(self, om_type, om_key, om_key_id, om_key_perm):
      if super().set_item(om_type, om_key, om_key_id=om_key_id, om_key_perm=om_key_perm):
          self.__set_items_id(om_key, om_key_id)
          return True
      return False
  \<close>
\<close>

definition set_item ::
  "object_model \<Rightarrow> om_type \<Rightarrow> string \<Rightarrow> int \<Rightarrow> string \<Rightarrow> bool \<times> object_model" where
  "set_item om t k i p =
     (case cloud_set_item om t k i p of
        (True, om1) \<Rightarrow> (True, set_items_id om1 k i)
      | (False, om1) \<Rightarrow> (False, om1))"

text \<open>A model is built by a sequence of \<open>set_item\<close> calls, as \<open>init\<close> does from the schema file.\<close>

definition register_all ::
  "object_model \<Rightarrow> (om_type \<times> string \<times> int \<times> string) list \<Rightarrow> object_model" where
  "register_all om regs = foldl (\<lambda>m (t, k, i, p). snd (set_item m t k i p)) om regs"

text \<open>The reverse lookup of the event callback: \<^verbatim>\<open>self.__object_model.items_id.get(i)\<close>.\<close>

definition reverse_lookup :: "object_model \<Rightarrow> int \<Rightarrow> string option" where
  "reverse_lookup om i = items_id om i"


section \<open>QuecThing.__data_format (quecthing.py)\<close>

text \<open>
  A key of the wire form is a numeric id or, for a sub-key passed through, the string.
  The wire value is the value as given, or the re-keyed dictionary \<open>nv\<close>.
\<close>

datatype wkey = WId int | WName string

datatype wire_value = WPlain pyval | WStruct "(wkey \<times> pyval) list"

text \<open>
  \<^verbatim>\<open>
  if struct_info.get(ik): nv[struct_info[ik]["id"]] = iv
  else:                   nv[ik] = iv
  \<close>
  An entry of \<open>struct_info\<close> is a non-empty dictionary, so \<open>.get(ik)\<close> is truthy exactly
  when \<open>ik\<close> is registered.
\<close>

definition sub_key :: "(string \<rightharpoonup> struct_item) \<Rightarrow> string \<Rightarrow> wkey" where
  "sub_key si ik = (case si ik of Some f \<Rightarrow> WId (fld_id f) | None \<Rightarrow> WName ik)"

definition format_value :: "(string \<rightharpoonup> struct_item) \<Rightarrow> pyval \<Rightarrow> wire_value" where
  "format_value si v =
     (case v of
        PDict kvs \<Rightarrow> WStruct (foldl (\<lambda>nv (ik, iv). AList.update (sub_key si ik) iv nv) [] kvs)
      | _ \<Rightarrow> WPlain v)"

text \<open>
  \<open>__data_format(k, v)\<close>: the events domain is asked first, then the properties domain;
  \<open>None\<close> is the \<open>return False\<close> of the last branch, \<open>Some (k_id, v)\<close> the dictionary
  \<open>{k_id: v}\<close>. An item is a non-empty dictionary, so \<open>.get(k)\<close> is truthy exactly when
  \<open>k\<close> is declared; its \<open>struct_info\<close> is always a dictionary.
\<close>

definition data_format :: "object_model \<Rightarrow> string \<Rightarrow> pyval \<Rightarrow> (int \<times> wire_value) option" where
  "data_format om k v =
     (case items om Events k of
        Some it \<Rightarrow> Some (om_id it, format_value (struct_info it) v)
      | None \<Rightarrow>
          (case items om Properties k of
             Some it \<Rightarrow> Some (om_id it, format_value (struct_info it) v)
           | None \<Rightarrow> None))"

text \<open>Two keys registered under one numeric id, in different domains.\<close>

definition shared_id_model :: object_model where
  "shared_id_model =
     register_all om_init [(Properties, ''a'', 1, ''r''), (Events, ''b'', 1, ''r'')]"


text \<open>The example of the docstring: event \<open>sos_alert\<close> (id 6) with the field \<open>local_time\<close> (id 19).\<close>

definition docstring_model :: object_model where
  "docstring_model =
     snd (cloud_set_item_struct
            (register_all om_init [(Properties, ''energy'', 4, ''rw''), (Events, ''sos_alert'', 6, ''r'')])
            Events ''sos_alert'' ''local_time'' 19 [])"


section \<open>QuecThing.post_data (quecthing.py)\<close>

text \<open>
  The cloud library \<open>quecIot\<close>: the three report calls return whether the request was
  handed over.
\<close>

record quec_cloud =
  phymodelReport :: "int \<times> wire_value \<Rightarrow> bool"
  locReportOutside :: "pyval \<Rightarrow> bool"
  locReportInside :: "pyval \<Rightarrow> bool"

text \<open>
  \<open>__get_post_res\<close>: start the timer, \<open>get\<close> from the queue, stop the timer. The \<open>get\<close>
  returns the oldest queued result; on the empty queue the caller waits for the next
  \<open>__put_post_res\<close>, which comes from the event callback (the head of \<open>arrivals\<close>, the
  results the cloud reports while the caller waits) or, when none comes within 10 s, from
  the timer callback, which puts \<open>False\<close>.
\<close>

definition get_post_res :: "bool queue \<Rightarrow> bool list \<Rightarrow> bool \<times> bool queue \<times> bool list" where
  "get_post_res q arrivals =
     (case queue_get q of
        Some (r, rest) \<Rightarrow> (r, rest, arrivals)
      | None \<Rightarrow>
          (case arrivals of
             a # as \<Rightarrow> (case queue_get (put_post_res q a) of
                          Some (r, rest) \<Rightarrow> (r, rest, as) | None \<Rightarrow> (a, q, as))
           | [] \<Rightarrow> (case queue_get (put_post_res q False) of
                      Some (r, rest) \<Rightarrow> (r, rest, []) | None \<Rightarrow> (False, q, []))))"

text \<open>
  One pass of the loop body of \<open>post_data\<close> up to the point where it either leaves the
  loop (\<open>res = False; break\<close>), goes to the next entry (\<open>continue\<close>, with the value then
  bound to the loop variable \<open>v\<close>), or goes on to wait for the result of the report.
\<close>

datatype flow = Abort | Skip pyval | Await

definition dispatch :: "object_model \<Rightarrow> quec_cloud \<Rightarrow> string \<Rightarrow> pyval \<Rightarrow> flow" where
  "dispatch om cloud k v =
     (case data_format om k v of
        Some om_data \<Rightarrow>
          if v \<noteq> PNone then (if \<not> phymodelReport cloud om_data then Abort else Await)
          else Skip v
      | None \<Rightarrow>
          if k = ''gps'' then (if \<not> locReportOutside cloud v then Abort else Await)
          else if k = ''non_gps'' then (if \<not> locReportInside cloud v then Abort else Await)
          else Skip (PDict []))"

text \<open>
  The loop of \<open>post_data\<close> over \<open>data.items()\<close>. Its variables are \<open>res\<close> and the loop
  variable \<open>v\<close>: the assignments \<^verbatim>\<open>v = {}\<close> bind the local name \<open>v\<close> anew, they are
  carried here as \<open>v_local\<close>. No statement of the loop assigns to \<open>data[k]\<close>, so the
  dictionary itself is not part of what the loop changes. The result is \<open>res\<close>, the last
  value of \<open>v\<close>, the queue and the results still to arrive.
\<close>

fun post_loop ::
  "object_model \<Rightarrow> quec_cloud \<Rightarrow> (string \<times> pyval) list \<Rightarrow> bool \<Rightarrow> pyval \<Rightarrow> bool queue \<Rightarrow> bool list
     \<Rightarrow> bool \<times> pyval \<times> bool queue \<times> bool list" where
  "post_loop om cloud [] res v_local q arr = (res, v_local, q, arr)"
| "post_loop om cloud ((k, v) # rest) res v_local q arr =
     (case dispatch om cloud k v of
        Abort \<Rightarrow> (False, v, q, arr)
      | Skip v' \<Rightarrow> post_loop om cloud rest res v' q arr
      | Await \<Rightarrow>
          (if fst (get_post_res q arr)
           then post_loop om cloud rest True (PDict [])
                  (fst (snd (get_post_res q arr))) (snd (snd (get_post_res q arr)))
           else (False, v, fst (snd (get_post_res q arr)), snd (snd (get_post_res q arr)))))"

text \<open>
  \<^verbatim>\<open>
  def __rm_empty_data(self, data):
      for k, v in data.items():
          if not v:
              del data[k]
  \<close>
  On the target interpreter a deletion marks the slot and the iteration goes on, so the
  loop removes every entry whose value is falsy.
\<close>

definition rm_empty_data :: "(string \<times> pyval) list \<Rightarrow> (string \<times> pyval) list" where
  "rm_empty_data data = filter (\<lambda>(k, v). \<not> falsy v) data"

text \<open>
  \<open>post_data(data)\<close>: the result and the caller's dictionary as it is left, then the
  queue and the results still to arrive.
\<close>

definition post_data ::
  "object_model \<Rightarrow> quec_cloud \<Rightarrow> (string \<times> pyval) list \<Rightarrow> bool queue \<Rightarrow> bool list
     \<Rightarrow> bool \<times> (string \<times> pyval) list \<times> bool queue \<times> bool list" where
  "post_data om cloud data q arr =
     (case post_loop om cloud data True PNone q arr of
        (res, v_local, q1, arr1) \<Rightarrow> (res, rm_empty_data data, q1, arr1))"

text \<open>A cloud that accepts every report.\<close>

definition accepting_cloud :: quec_cloud where
  "accepting_cloud =
     \<lparr>phymodelReport = (\<lambda>_. True), locReportOutside = (\<lambda>_. True), locReportInside = (\<lambda>_. True)\<rparr>"


section \<open>AliYunIot: message ids (aliyunIot.py)\<close>

datatype py_error = StopIteration | AttributeError | KeyError | ValueError

text \<open>\<open>str(msg_id)\<close> for a non-negative integer: its decimal digits.\<close>

definition digit_char :: "nat \<Rightarrow> char" where
  "digit_char d = ''0123456789'' ! d"

fun str_nat :: "nat \<Rightarrow> string" where
  "str_nat n = (if n < 10 then [digit_char n] else str_nat (n div 10) @ [digit_char (n mod 10)])"

text \<open>
  The fields of an \<open>AliYunIot\<close> object that the claims are about: the id iterator (what it
  still has to yield), the pending results \<open>__post_res\<close>, the flag \<open>__breack_flag\<close>,
  whether \<open>__ali\<close> holds a client (it is \<open>None\<close> until \<open>init\<close> creates one), and the log
  of what was handed to \<open>__ali.publish\<close>.
\<close>

record param =
  p_value :: pyval
  p_time :: int

datatype params = Property_params "(string \<times> param) list" | Event_params param

record message =
  m_id :: string
  m_version :: string
  m_ack :: int
  m_params :: params
  m_method :: string

record ali_iot =
  id_iter :: "nat list"
  post_res :: "string \<rightharpoonup> bool"
  breack_flag :: bool
  ali :: bool
  published :: "(string \<times> message) list"

text \<open>
  \<open>numiter\<close> of \<open>usr.modules.common\<close> is not part of the sources at hand. It is taken as
  a parameter: \<open>fresh\<close> is the finite sequence of numbers that an iterator made by
  \<open>numiter()\<close> yields before it raises \<open>StopIteration\<close>.
\<close>

definition ali_init :: "nat list \<Rightarrow> ali_iot" where
  "ali_init fresh =
     \<lparr>id_iter = fresh, post_res = Map.empty, breack_flag = False, ali = False, published = []\<rparr>"

text \<open>
  \<^verbatim>\<open>
  def __get_id(self):
      with self.__id_lock:
          try:
              msg_id = next(self.__id_iter)
          except StopIteration:
              self.__id_iter = numiter()
              msg_id = next(self.__id_iter)
      return str(msg_id)
  \<close>
  The lock makes concurrent calls take their turns, so any number of calls is a sequence
  of calls. The second \<open>next\<close> is not guarded: on an empty \<open>fresh\<close> it raises.
\<close>

definition get_id :: "nat list \<Rightarrow> ali_iot \<Rightarrow> py_error + (string \<times> ali_iot)" where
  "get_id fresh s =
     (case id_iter s of
        x # xs \<Rightarrow> Inr (str_nat x, s\<lparr>id_iter := xs\<rparr>)
      | [] \<Rightarrow>
          (case fresh of
             x # xs \<Rightarrow> Inr (str_nat x, s\<lparr>id_iter := xs\<rparr>)
           | [] \<Rightarrow> Inl StopIteration))"

text \<open>\<open>n\<close> calls of \<open>__get_id\<close>, one after the other, and the ids they return.\<close>

fun get_ids :: "nat list \<Rightarrow> nat \<Rightarrow> ali_iot \<Rightarrow> py_error + (string list \<times> ali_iot)" where
  "get_ids fresh 0 s = Inr ([], s)"
| "get_ids fresh (Suc n) s =
     (case get_id fresh s of
        Inl e \<Rightarrow> Inl e
      | Inr (i, s1) \<Rightarrow>
          (case get_ids fresh n s1 of
             Inl e \<Rightarrow> Inl e
           | Inr (ids, s2) \<Rightarrow> Inr (i # ids, s2)))"

definition issued_ids :: "nat list \<Rightarrow> nat \<Rightarrow> string list option" where
  "issued_ids fresh n =
     (case get_ids fresh n (ali_init fresh) of Inl e \<Rightarrow> None | Inr (ids, s) \<Rightarrow> Some ids)"


section \<open>AliYunIot: waiting for a result (aliyunIot.py)\<close>

text \<open>
  What happens in other execution contexts while \<open>__get_post_res\<close> sleeps: the timer
  callback \<open>__ali_timer_cb\<close> raises the flag, the subscriber callback records a result
  with \<open>__put_post_res(msg_id, res)\<close>.
\<close>

datatype env_event = Timer_fire | Reply string bool

fun apply_event :: "ali_iot \<Rightarrow> env_event \<Rightarrow> ali_iot" where
  "apply_event s Timer_fire = s\<lparr>breack_flag := True\<rparr>"
| "apply_event s (Reply i r) = s\<lparr>post_res := (post_res s)(i \<mapsto> r)\<rparr>"

text \<open>
  \<^verbatim>\<open>
  while self.__post_res.get(msg_id) is None:
      if self.__breack_flag:
          self.__post_res[msg_id] = False
          break
      utime.sleep_ms(50)
  \<close>
  The environment is a list of windows: the events that take place during one
  \<open>sleep_ms(50)\<close>, in their order. A loop that is still asleep when the list ends has not
  returned: \<open>None\<close>. The result is the state and the windows not yet lived through.
\<close>

fun poll :: "string \<Rightarrow> env_event list list \<Rightarrow> ali_iot \<Rightarrow> (ali_iot \<times> env_event list list) option" where
  "poll msg_id [] s =
     (if post_res s msg_id \<noteq> None then Some (s, [])
      else if breack_flag s then Some (s\<lparr>post_res := (post_res s)(msg_id \<mapsto> False)\<rparr>, [])
      else None)"
| "poll msg_id (w # ws) s =
     (if post_res s msg_id \<noteq> None then Some (s, w # ws)
      else if breack_flag s then Some (s\<lparr>post_res := (post_res s)(msg_id \<mapsto> False)\<rparr>, w # ws)
      else poll msg_id ws (foldl apply_event s w))"

text \<open>
  \<open>__get_post_res(msg_id)\<close>: the loop, then \<^verbatim>\<open>self.__breack_flag = 0\<close> and
  \<^verbatim>\<open>res = self.__post_res.pop(msg_id)\<close>, which raises \<open>KeyError\<close> on a missing key.
\<close>

definition ali_get_post_res ::
  "string \<Rightarrow> env_event list list \<Rightarrow> ali_iot
     \<Rightarrow> (py_error + (bool \<times> ali_iot \<times> env_event list list)) option" where
  "ali_get_post_res msg_id ws s =
     (case poll msg_id ws s of
        None \<Rightarrow> None
      | Some (s1, ws1) \<Rightarrow>
          (case post_res s1 msg_id of
             None \<Rightarrow> Some (Inl KeyError)
           | Some r \<Rightarrow>
               Some (Inr (r, s1\<lparr>breack_flag := False, post_res := (post_res s1)(msg_id := None)\<rparr>, ws1))))"

text \<open>The value that a call returns, when it returns one.\<close>

definition returned ::
  "(py_error + (bool \<times> ali_iot \<times> env_event list list)) option \<Rightarrow> bool option" where
  "returned x = (case x of Some (Inr (r, s, ws)) \<Rightarrow> Some r | _ \<Rightarrow> None)"



section \<open>Proofs: the pending-result queue\<close>

lemma put_post_res_full:
  "length q \<ge> 16 \<Longrightarrow> put_post_res q r = tl q @ [r]"
  by (cases q) (simp_all add: put_post_res_def queue_size_def queue_get_def queue_put_def)

lemma put_post_res_room:
  "length q < 16 \<Longrightarrow> put_post_res q r = q @ [r]"
  by (simp add: put_post_res_def queue_size_def queue_put_def)

lemma put_post_res_bound:
  "length q \<le> 16 \<Longrightarrow> length (put_post_res q r) \<le> 16"
  by (cases "length q < 16") (simp_all add: put_post_res_full put_post_res_room)

lemma buf_step_bound:
  "length q \<le> 16 \<Longrightarrow> length (buf_step q op) \<le> 16"
  by (cases op) (auto simp: put_post_res_bound queue_get_def split: list.splits)

lemma foldl_buf_step_bound:
  "length q \<le> 16 \<Longrightarrow> length (foldl buf_step q ops) \<le> 16"
  by (induction ops arbitrary: q) (simp_all add: buf_step_bound)


section \<open>Proofs: block transfer to the companion MCU\<close>






lemma sota_inv_ota_action_log [simp]:
  "sota_inv N (ota_action_log a s) = sota_inv N s"
  by (simp add: sota_inv_def ota_action_log_def block_sizes_def)

lemma sota_inv_file_complete [simp]:
  "sota_inv N (file_complete m u s) = sota_inv N s"
  by (simp add: sota_inv_def file_complete_def ota_action_log_def block_sizes_def)

lemma file_complete_fields [simp]:
  "download_size (file_complete m u s) = download_size s"
  "file_done (file_complete m u s)"
  by (simp_all add: file_complete_def ota_action_log_def)





text \<open>
  C2. Starting from the empty queue, no sequence of operations makes the queue hold more
  than 16 results; a put on a queue of 16 drops the oldest entry and appends the new one,
  so the queue then holds the former second to sixteenth results followed by the new one;
  below 16 entries a put only appends.
\<close>

theorem C2_pending_buffer_bounded:
  "length (buf_run ops) \<le> 16 \<and>
   (length q \<le> 16 \<longrightarrow> length (put_post_res q r) \<le> 16) \<and>
   (length q = 16 \<longrightarrow> put_post_res q r = tl q @ [r] \<and> length (put_post_res q r) = 16) \<and>
   (length q < 16 \<longrightarrow> put_post_res q r = q @ [r])"
  unfolding buf_run_def
  by (simp add: foldl_buf_step_bound put_post_res_bound put_post_res_full put_post_res_room)

theorem C2_pending_buffer_bounded_witness:
  "length (buf_run [Put_res True, Get_res, Timer_cb]) \<le> 16 \<and>
   put_post_res [1, 2, 3, 4, 5, 6, 7, 8, 9, 10, 11, 12, 13, 14, 15, 16 :: nat] 17 =
     [2, 3, 4, 5, 6, 7, 8, 9, 10, 11, 12, 13, 14, 15, 16, 17] \<and>
   put_post_res [1, 2 :: nat] 3 = [1, 2, 3]"
  using C2_pending_buffer_bounded [of "[Put_res True, Get_res, Timer_cb]"
      "[1, 2, 3, 4, 5, 6, 7, 8, 9, 10, 11, 12, 13, 14, 15, 16 :: nat]" 17]
    C2_pending_buffer_bounded [of "[]" "[1, 2 :: nat]" 3]
  by simp



section \<open>Proofs: the wire form of QuecThing\<close>

lemma rekey_keys:
  "fst ` set (foldl (\<lambda>nv (ik, iv). AList.update (f ik) iv nv) acc kvs)
     = fst ` set acc \<union> f ` fst ` set kvs"
proof (induction kvs arbitrary: acc)
  case Nil
  then show ?case by simp
next
  case (Cons p kvs)
  obtain ik iv where p: "p = (ik, iv)" by (cases p)
  have "fst ` set (foldl (\<lambda>nv (ik, iv). AList.update (f ik) iv nv) acc (p # kvs))
          = fst ` set (AList.update (f ik) iv acc) \<union> f ` fst ` set kvs"
    using Cons.IH [of "AList.update (f ik) iv acc"] p by simp
  also have "\<dots> = ({f ik} \<union> fst ` set acc) \<union> f ` fst ` set kvs"
    by (simp only: AList.dom_update)
  also have "\<dots> = fst ` set acc \<union> f ` fst ` set (p # kvs)"
    using p by auto
  finally show ?case .
qed

lemma rekey_map_of:
  "map_of (foldl (\<lambda>nv (ik, iv). AList.update (f ik) iv nv) [] kvs)
     = map_of (rev (map (\<lambda>(ik, iv). (f ik, iv)) kvs))"
  by (induction kvs rule: rev_induct) (auto simp: AList.update_conv')

lemma map_of_unique:
  assumes "(x, v) \<in> set l" and "\<forall>v'. (x, v') \<in> set l \<longrightarrow> v' = v"
  shows "map_of l x = Some v"
proof -
  from assms(1) obtain u where u: "map_of l x = Some u"
    using weak_map_of_SomeI by fastforce
  then have "(x, u) \<in> set l" by (rule map_of_SomeD)
  with assms(2) u show ?thesis by simp
qed

lemma rekey_lookup:
  assumes "distinct (map fst kvs)" and "(ik, iv) \<in> set kvs"
    and "\<forall>ik' \<in> fst ` set kvs. f ik' = f ik \<longrightarrow> ik' = ik"
  shows "map_of (foldl (\<lambda>nv (ik, iv). AList.update (f ik) iv nv) [] kvs) (f ik) = Some iv"
proof -
  let ?l = "rev (map (\<lambda>(ik, iv). (f ik, iv)) kvs)"
  have mem: "(f ik, iv) \<in> set ?l" using assms(2) by force
  have uniq: "\<forall>v'. (f ik, v') \<in> set ?l \<longrightarrow> v' = iv"
  proof (intro allI impI)
    fix v' assume "(f ik, v') \<in> set ?l"
    then obtain ik' where m: "(ik', v') \<in> set kvs" and e: "f ik' = f ik" by auto
    from m have "ik' \<in> fst ` set kvs" by force
    with assms(3) e have "ik' = ik" by blast
    with m assms(1,2) show "v' = iv" by (metis eq_key_imp_eq_value)
  qed
  show ?thesis unfolding rekey_map_of using mem uniq by (rule map_of_unique)
qed

lemma format_value_plain:
  "(\<forall>kvs. v \<noteq> PDict kvs) \<Longrightarrow> format_value si v = WPlain v"
  by (cases v) (simp_all add: format_value_def)

lemma format_value_dict:
  assumes d: "distinct (map fst kvs)"
  shows "\<exists>nv. format_value si (PDict kvs) = WStruct nv \<and>
           fst ` set nv = sub_key si ` fst ` set kvs \<and>
           (\<forall>(ik, iv) \<in> set kvs.
              (si ik = None \<longrightarrow> map_of nv (WName ik) = Some iv) \<and>
              (\<forall>f. si ik = Some f \<longrightarrow>
                 WId (fld_id f) \<in> fst ` set nv \<and> WName ik \<notin> fst ` set nv \<and>
                 ((\<forall>ik' f'. ik' \<in> fst ` set kvs \<and> si ik' = Some f' \<and> fld_id f' = fld_id f
                      \<longrightarrow> ik' = ik) \<longrightarrow>
                  map_of nv (WId (fld_id f)) = Some iv)))"
proof -
  let ?nv = "foldl (\<lambda>nv (ik, iv). AList.update (sub_key si ik) iv nv) [] kvs"
  have fv: "format_value si (PDict kvs) = WStruct ?nv" by (simp add: format_value_def)
  have keys: "fst ` set ?nv = sub_key si ` fst ` set kvs" by (simp add: rekey_keys)
  have each: "(si ik = None \<longrightarrow> map_of ?nv (WName ik) = Some iv) \<and>
              (\<forall>f. si ik = Some f \<longrightarrow>
                 WId (fld_id f) \<in> fst ` set ?nv \<and> WName ik \<notin> fst ` set ?nv \<and>
                 ((\<forall>ik' f'. ik' \<in> fst ` set kvs \<and> si ik' = Some f' \<and> fld_id f' = fld_id f
                      \<longrightarrow> ik' = ik) \<longrightarrow>
                  map_of ?nv (WId (fld_id f)) = Some iv))"
    if m: "(ik, iv) \<in> set kvs" for ik iv
  proof (intro conjI impI allI)
    assume n: "si ik = None"
    have "\<forall>ik' \<in> fst ` set kvs. sub_key si ik' = sub_key si ik \<longrightarrow> ik' = ik"
      using n by (auto simp: sub_key_def split: option.splits)
    from rekey_lookup [OF d m this] n show "map_of ?nv (WName ik) = Some iv"
      by (simp add: sub_key_def)
  next
    fix f assume r: "si ik = Some f"
    from m have "ik \<in> fst ` set kvs" by force
    then have "sub_key si ik \<in> sub_key si ` fst ` set kvs" by blast
    then show "WId (fld_id f) \<in> fst ` set ?nv" using r keys by (simp add: sub_key_def)
  next
    fix f assume r: "si ik = Some f"
    show "WName ik \<notin> fst ` set ?nv"
      unfolding keys using r by (auto simp: sub_key_def split: option.splits)
  next
    fix f assume r: "si ik = Some f"
      and u: "\<forall>ik' f'. ik' \<in> fst ` set kvs \<and> si ik' = Some f' \<and> fld_id f' = fld_id f \<longrightarrow> ik' = ik"
    have "\<forall>ik' \<in> fst ` set kvs. sub_key si ik' = sub_key si ik \<longrightarrow> ik' = ik"
      using r u by (auto simp: sub_key_def split: option.splits)
    from rekey_lookup [OF d m this] r show "map_of ?nv (WId (fld_id f)) = Some iv"
      by (simp add: sub_key_def)
  qed
  have all: "\<forall>(ik, iv) \<in> set kvs.
              (si ik = None \<longrightarrow> map_of ?nv (WName ik) = Some iv) \<and>
              (\<forall>f. si ik = Some f \<longrightarrow>
                 WId (fld_id f) \<in> fst ` set ?nv \<and> WName ik \<notin> fst ` set ?nv \<and>
                 ((\<forall>ik' f'. ik' \<in> fst ` set kvs \<and> si ik' = Some f' \<and> fld_id f' = fld_id f
                      \<longrightarrow> ik' = ik) \<longrightarrow>
                  map_of ?nv (WId (fld_id f)) = Some iv))"
  proof (rule ballI)
    fix p assume pm: "p \<in> set kvs"
    obtain ik iv where p: "p = (ik, iv)" by (cases p)
    from pm p have "(ik, iv) \<in> set kvs" by simp
    from each [OF this]
    show "case p of (ik, iv) \<Rightarrow>
              (si ik = None \<longrightarrow> map_of ?nv (WName ik) = Some iv) \<and>
              (\<forall>f. si ik = Some f \<longrightarrow>
                 WId (fld_id f) \<in> fst ` set ?nv \<and> WName ik \<notin> fst ` set ?nv \<and>
                 ((\<forall>ik' f'. ik' \<in> fst ` set kvs \<and> si ik' = Some f' \<and> fld_id f' = fld_id f
                      \<longrightarrow> ik' = ik) \<longrightarrow>
                  map_of ?nv (WId (fld_id f)) = Some iv))"
      unfolding p prod.case .
  qed
  from fv keys all show ?thesis by (intro exI [of _ ?nv] conjI)
qed

text \<open>
  C5. \<open>__data_format(k, v)\<close> returns the failure value when \<open>k\<close> is declared in neither
  domain. Otherwise, with \<open>it\<close> the declaration the function reads (the event of that
  name, else the property), the result is the one-entry map from the id of \<open>it\<close>: to \<open>v\<close>
  itself when \<open>v\<close> is no dictionary, and for a dictionary to a map whose keys are the
  sub-keys with every registered one replaced by its field id. An unregistered sub-key
  keeps its name and its value; a registered sub-key appears under its field id and no
  longer under its name, with its value whenever no other sub-key of the dictionary is
  registered under the same field id.
\<close>

theorem C5_data_format_wire_form:
  "(k \<notin> dom (items om Events) \<and> k \<notin> dom (items om Properties) \<longrightarrow> data_format om k v = None) \<and>
   (\<forall>it. items om Events k = Some it \<or>
          (items om Events k = None \<and> items om Properties k = Some it) \<longrightarrow>
      (\<exists>w. data_format om k v = Some (om_id it, w) \<and>
           ((\<forall>kvs. v \<noteq> PDict kvs) \<longrightarrow> w = WPlain v) \<and>
           (\<forall>kvs. v = PDict kvs \<and> distinct (map fst kvs) \<longrightarrow>
              (\<exists>nv. w = WStruct nv \<and>
                 fst ` set nv = sub_key (struct_info it) ` fst ` set kvs \<and>
                 (\<forall>(ik, iv) \<in> set kvs.
                    (struct_info it ik = None \<longrightarrow> map_of nv (WName ik) = Some iv) \<and>
                    (\<forall>f. struct_info it ik = Some f \<longrightarrow>
                       WId (fld_id f) \<in> fst ` set nv \<and> WName ik \<notin> fst ` set nv \<and>
                       ((\<forall>ik' f'. ik' \<in> fst ` set kvs \<and> struct_info it ik' = Some f' \<and>
                            fld_id f' = fld_id f \<longrightarrow> ik' = ik) \<longrightarrow>
                        map_of nv (WId (fld_id f)) = Some iv)))))))"
proof (intro conjI allI impI)
  assume "k \<notin> dom (items om Events) \<and> k \<notin> dom (items om Properties)"
  then show "data_format om k v = None"
    by (auto simp: data_format_def dom_def split: option.splits)
next
  fix it
  assume h: "items om Events k = Some it \<or>
             (items om Events k = None \<and> items om Properties k = Some it)"
  then have df: "data_format om k v = Some (om_id it, format_value (struct_info it) v)"
    by (auto simp: data_format_def)
  show "\<exists>w. data_format om k v = Some (om_id it, w) \<and>
           ((\<forall>kvs. v \<noteq> PDict kvs) \<longrightarrow> w = WPlain v) \<and>
           (\<forall>kvs. v = PDict kvs \<and> distinct (map fst kvs) \<longrightarrow>
              (\<exists>nv. w = WStruct nv \<and>
                 fst ` set nv = sub_key (struct_info it) ` fst ` set kvs \<and>
                 (\<forall>(ik, iv) \<in> set kvs.
                    (struct_info it ik = None \<longrightarrow> map_of nv (WName ik) = Some iv) \<and>
                    (\<forall>f. struct_info it ik = Some f \<longrightarrow>
                       WId (fld_id f) \<in> fst ` set nv \<and> WName ik \<notin> fst ` set nv \<and>
                       ((\<forall>ik' f'. ik' \<in> fst ` set kvs \<and> struct_info it ik' = Some f' \<and>
                            fld_id f' = fld_id f \<longrightarrow> ik' = ik) \<longrightarrow>
                        map_of nv (WId (fld_id f)) = Some iv)))))"
  proof (rule exI [of _ "format_value (struct_info it) v"], intro conjI allI impI)
    show "data_format om k v = Some (om_id it, format_value (struct_info it) v)" by (rule df)
  next
    assume "\<forall>kvs. v \<noteq> PDict kvs"
    then show "format_value (struct_info it) v = WPlain v" by (rule format_value_plain)
  next
    fix kvs assume a: "v = PDict kvs \<and> distinct (map fst kvs)"
    from a have v: "v = PDict kvs" and d: "distinct (map fst kvs)" by simp_all
    show "\<exists>nv. format_value (struct_info it) v = WStruct nv \<and>
                 fst ` set nv = sub_key (struct_info it) ` fst ` set kvs \<and>
                 (\<forall>(ik, iv) \<in> set kvs.
                    (struct_info it ik = None \<longrightarrow> map_of nv (WName ik) = Some iv) \<and>
                    (\<forall>f. struct_info it ik = Some f \<longrightarrow>
                       WId (fld_id f) \<in> fst ` set nv \<and> WName ik \<notin> fst ` set nv \<and>
                       ((\<forall>ik' f'. ik' \<in> fst ` set kvs \<and> struct_info it ik' = Some f' \<and>
                            fld_id f' = fld_id f \<longrightarrow> ik' = ik) \<longrightarrow>
                        map_of nv (WId (fld_id f)) = Some iv)))"
      unfolding v by (rule format_value_dict [OF d])
  qed
qed

lemma docstring_model_event:
  "items docstring_model Events ''sos_alert'' =
     Some \<lparr>om_name = ''sos_alert'', om_id = 6, om_perm = ''r'',
           struct_info = [''local_time'' \<mapsto> \<lparr>fld_name = ''local_time'', fld_id = 19, fld_struct = []\<rparr>]\<rparr>"
  by (simp add: docstring_model_def register_all_def set_item_def cloud_set_item_def
        set_items_id_def om_init_def cloud_set_item_struct_def)

theorem C5_data_format_wire_form_witness:
  "items docstring_model Events ''sos_alert'' \<noteq> None \<and>
   distinct (map fst [(''local_time'', PInt 1649995898000), (''note'', PStr ''x'')]) \<and>
   data_format docstring_model ''sos_alert''
       (PDict [(''local_time'', PInt 1649995898000), (''note'', PStr ''x'')])
     = Some (6, WStruct [(WId 19, PInt 1649995898000), (WName ''note'', PStr ''x'')]) \<and>
   data_format docstring_model ''unknown'' (PInt 1) = None"
  using C5_data_format_wire_form [of "''sos_alert''" docstring_model
      "PDict [(''local_time'', PInt 1649995898000), (''note'', PStr ''x'')]"]
    C5_data_format_wire_form [of "''unknown''" docstring_model "PInt 1"]
  by (simp add: docstring_model_event data_format_def format_value_def sub_key_def
        docstring_model_def register_all_def set_item_def cloud_set_item_def
        set_items_id_def om_init_def cloud_set_item_struct_def)


section \<open>Proofs: the reverse lookup of QuecObjectModel\<close>

lemma set_item_model:
  "snd (set_item om t k i p) =
     om\<lparr>items := (items om)(t := (items om t)(k \<mapsto>
            \<lparr>om_name = k, om_id = i, om_perm = p, struct_info = Map.empty\<rparr>)),
        items_id := (items_id om)(i \<mapsto> k)\<rparr>"
  by (simp add: set_item_def cloud_set_item_def set_items_id_def)

lemma register_all_snoc:
  "register_all om (regs @ [(t, k, i, p)]) = snd (set_item (register_all om regs) t k i p)"
  by (simp add: register_all_def)

lemma registered_item_declared:
  "(t, k, i, p) \<in> set regs \<Longrightarrow> items (register_all om_init regs) t k \<noteq> None"
proof (induction regs rule: rev_induct)
  case Nil
  then show ?case by simp
next
  case (snoc r regs)
  obtain t' k' i' p' where r: "r = (t', k', i', p')" by (cases r) auto
  show ?case
    using snoc unfolding r register_all_snoc set_item_model by auto
qed

lemma declared_item_registered:
  "items (register_all om_init regs) t k = Some it \<Longrightarrow>
     (\<exists>p. (t, k, om_id it, p) \<in> set regs) \<and> items_id (register_all om_init regs) (om_id it) \<noteq> None"
proof (induction regs arbitrary: t k it rule: rev_induct)
  case Nil
  then show ?case by (simp add: register_all_def om_init_def)
next
  case (snoc r regs)
  obtain t' k' i' p' where r: "r = (t', k', i', p')" by (cases r) auto
  show ?case
  proof (cases "t = t' \<and> k = k'")
    case True
    with snoc.prems have "om_id it = i'"
      unfolding r register_all_snoc set_item_model by auto
    with True show ?thesis
      unfolding r register_all_snoc set_item_model by auto
  next
    case False
    with snoc.prems have old: "items (register_all om_init regs) t k = Some it"
      unfolding r register_all_snoc set_item_model by (auto split: if_splits)
    from snoc.IH [OF old] show ?thesis
      unfolding r register_all_snoc set_item_model by auto
  qed
qed

lemma items_id_registered:
  "items_id (register_all om_init regs) i = Some k \<Longrightarrow> \<exists>t p. (t, k, i, p) \<in> set regs"
proof (induction regs rule: rev_induct)
  case Nil
  then show ?case by (simp add: register_all_def om_init_def)
next
  case (snoc r regs)
  obtain t' k' i' p' where r: "r = (t', k', i', p')" by (cases r) auto
  show ?case
  proof (cases "i = i'")
    case True
    with snoc.prems have "k = k'"
      unfolding r register_all_snoc set_item_model by simp
    with True show ?thesis unfolding r by auto
  next
    case False
    with snoc.prems have "items_id (register_all om_init regs) i = Some k"
      unfolding r register_all_snoc set_item_model by simp
    from snoc.IH [OF this] show ?thesis by auto
  qed
qed

lemma data_format_declared:
  "data_format om k v = Some (j, w) \<Longrightarrow> \<exists>t it. items om t k = Some it \<and> om_id it = j"
  by (auto simp: data_format_def split: option.splits)

text \<open>
  C6, as amended. In a model built by \<open>set_item\<close> calls in which no numeric id is
  registered for two different keys (in whichever domains), every registered key is
  encoded by \<open>__data_format\<close>, and the id under which it is encoded leads back to the key
  through \<open>items_id\<close>.
\<close>

theorem C6_round_trip_unique_ids:
  assumes uniq: "\<forall>(t, k, i, p) \<in> set regs. \<forall>(t', k', i', p') \<in> set regs. i = i' \<longrightarrow> k = k'"
  shows "(\<forall>t k i p. (t, k, i, p) \<in> set regs \<longrightarrow>
            (\<exists>j w. data_format (register_all om_init regs) k v = Some (j, w))) \<and>
         (\<forall>k j w. data_format (register_all om_init regs) k v = Some (j, w) \<longrightarrow>
            reverse_lookup (register_all om_init regs) j = Some k)"
proof (intro conjI allI impI)
  fix t k i p assume "(t, k, i, p) \<in> set regs"
  then have "items (register_all om_init regs) t k \<noteq> None" by (rule registered_item_declared)
  then show "\<exists>j w. data_format (register_all om_init regs) k v = Some (j, w)"
    by (cases t) (auto simp: data_format_def split: option.splits)
next
  fix k j w assume "data_format (register_all om_init regs) k v = Some (j, w)"
  then obtain t it where it: "items (register_all om_init regs) t k = Some it" and j: "om_id it = j"
    using data_format_declared by blast
  from declared_item_registered [OF it] j obtain p k' where
    reg: "(t, k, j, p) \<in> set regs" and rl: "items_id (register_all om_init regs) j = Some k'"
    by auto
  from items_id_registered [OF rl] obtain t' p' where reg': "(t', k', j, p') \<in> set regs"
    by auto
  from uniq reg reg' have "k = k'" by fastforce
  with rl show "reverse_lookup (register_all om_init regs) j = Some k"
    by (simp add: reverse_lookup_def)
qed

theorem C6_round_trip_unique_ids_witness:
  "data_format (register_all om_init [(Properties, ''energy'', 4, ''rw''), (Events, ''sos_alert'', 6, ''r'')])
       ''energy'' (PInt 100) = Some (4, WPlain (PInt 100)) \<and>
   reverse_lookup (register_all om_init [(Properties, ''energy'', 4, ''rw''), (Events, ''sos_alert'', 6, ''r'')])
       4 = Some ''energy''"
proof -
  let ?regs = "[(Properties, ''energy'', 4 :: int, ''rw''), (Events, ''sos_alert'', 6, ''r'')]"
  have h: "\<forall>(t, k, i, p) \<in> set ?regs. \<forall>(t', k', i', p') \<in> set ?regs. i = i' \<longrightarrow> k = k'"
    by simp
  have df: "data_format (register_all om_init ?regs) ''energy'' (PInt 100) = Some (4, WPlain (PInt 100))"
    by (simp add: register_all_def set_item_def cloud_set_item_def set_items_id_def om_init_def
          data_format_def format_value_def)
  from C6_round_trip_unique_ids [OF h, of "PInt 100"] df
  have "reverse_lookup (register_all om_init ?regs) 4 = Some ''energy''" by blast
  with df show ?thesis by simp
qed

text \<open>
  C6 as stated fails: the property \<open>a\<close> and the event \<open>b\<close> are both registered under the
  id 1. The key \<open>a\<close> is encoded as 1, and 1 leads back to \<open>b\<close>, the later registration.
\<close>

theorem C6_round_trip_counterexample:
  "map_option om_id (items shared_id_model Properties ''a'') = Some 1 \<and>
   data_format shared_id_model ''a'' (PInt 5) = Some (1, WPlain (PInt 5)) \<and>
   reverse_lookup shared_id_model 1 = Some ''b''"
  by (simp add: shared_id_model_def register_all_def set_item_def cloud_set_item_def
        set_items_id_def om_init_def data_format_def format_value_def reverse_lookup_def)


section \<open>Proofs: the caller's dictionary after post_data\<close>

lemma post_data_dictionary:
  "fst (snd (post_data om cloud data q arr)) = rm_empty_data data"
  by (simp add: post_data_def split: prod.splits)

text \<open>
  C10 fails on the code. The record \<open>{"energy": 100}\<close> with \<open>energy\<close> a declared property
  is reported, the cloud accepts it and the result \<open>True\<close> arrives: \<open>post_data\<close> returns
  \<open>True\<close>, the loop variable is bound to the empty dictionary, and the caller's dictionary
  still holds the entry.
\<close>

theorem C10_posted_entry_stays:
  "post_data docstring_model accepting_cloud [(''energy'', PInt 100)] [] [True]
     = (True, [(''energy'', PInt 100)], [], []) \<and>
   fst (snd (post_loop docstring_model accepting_cloud [(''energy'', PInt 100)] True PNone [] [True]))
     = PDict []"
  by (simp add: post_data_def dispatch_def data_format_def format_value_def accepting_cloud_def
        get_post_res_def queue_get_def put_post_res_def queue_size_def queue_put_def
        rm_empty_data_def docstring_model_def register_all_def set_item_def cloud_set_item_def
        set_items_id_def om_init_def cloud_set_item_struct_def)



section \<open>Proofs: message ids\<close>

declare str_nat.simps [simp del]

lemma digit_char_inj:
  "a < 10 \<Longrightarrow> b < 10 \<Longrightarrow> digit_char a = digit_char b \<Longrightarrow> a = b"
proof -
  assume a: "a < 10" and b: "b < 10" and e: "digit_char a = digit_char b"
  have d: "distinct ''0123456789''" by simp
  have "length ''0123456789'' = 10" by simp
  with a b d e show "a = b"
    unfolding digit_char_def by (simp add: nth_eq_iff_index_eq)
qed

lemma str_nat_not_Nil: "str_nat n \<noteq> []"
  by (subst str_nat.simps) simp

lemma str_nat_inj: "str_nat n = str_nat m \<Longrightarrow> n = m"
proof (induction n arbitrary: m rule: str_nat.induct)
  case (1 n)
  show ?case
  proof (cases "n < 10")
    case n: True
    show ?thesis
    proof (cases "m < 10")
      case True
      with n "1.prems" show ?thesis
        by (simp add: str_nat.simps [of n] str_nat.simps [of m] digit_char_inj)
    next
      case False
      with n "1.prems" show ?thesis
        by (simp add: str_nat.simps [of n] str_nat.simps [of m] str_nat_not_Nil str_nat_not_Nil [THEN not_sym])
    qed
  next
    case n: False
    show ?thesis
    proof (cases "m < 10")
      case True
      with n "1.prems" show ?thesis
        by (simp add: str_nat.simps [of n] str_nat.simps [of m] str_nat_not_Nil str_nat_not_Nil [THEN not_sym])
    next
      case False
      with n "1.prems" have q: "str_nat (n div 10) = str_nat (m div 10)"
        and r: "digit_char (n mod 10) = digit_char (m mod 10)"
        by (simp_all add: str_nat.simps [of n] str_nat.simps [of m])
      from "1.IH" [OF n q] have "n div 10 = m div 10" .
      moreover from r have "n mod 10 = m mod 10" by (intro digit_char_inj) simp_all
      ultimately show ?thesis by (metis div_mult_mod_eq)
    qed
  qed
qed

lemma distinct_str_nat: "distinct xs \<Longrightarrow> distinct (map str_nat xs)"
  by (simp add: distinct_map inj_on_def str_nat_inj)

lemma get_ids_within:
  "n \<le> length (id_iter s) \<Longrightarrow>
   get_ids fresh n s = Inr (map str_nat (take n (id_iter s)), s\<lparr>id_iter := drop n (id_iter s)\<rparr>)"
proof (induction n arbitrary: s)
  case 0
  then show ?case by simp
next
  case (Suc n)
  then obtain x xs where it: "id_iter s = x # xs" by (cases "id_iter s") auto
  have g: "get_id fresh s = Inr (str_nat x, s\<lparr>id_iter := xs\<rparr>)"
    by (simp add: get_id_def it)
  from Suc.prems it have "n \<le> length (id_iter (s\<lparr>id_iter := xs\<rparr>))" by simp
  from Suc.IH [OF this] show ?case by (simp add: g it)
qed

lemma get_ids_restart:
  "fresh \<noteq> [] \<Longrightarrow>
   get_ids fresh (Suc (length (id_iter s))) s
     = Inr (map str_nat (id_iter s @ [hd fresh]), s\<lparr>id_iter := tl fresh\<rparr>)"
proof (induction "id_iter s" arbitrary: s)
  case Nil
  then obtain y ys where f: "fresh = y # ys" by (cases fresh) auto
  from Nil(1) [symmetric] show ?case by (simp add: get_id_def f)
next
  case (Cons x xs)
  have it: "id_iter s = x # xs" using Cons(2) by simp
  have g: "get_id fresh s = Inr (str_nat x, s\<lparr>id_iter := xs\<rparr>)"
    by (simp add: get_id_def it)
  have "xs = id_iter (s\<lparr>id_iter := xs\<rparr>)" by simp
  from Cons(1) [OF this Cons(3)] show ?case by (simp add: g it)
qed

text \<open>
  C1, as amended. As long as the iterator is not used up, the ids are new: if the numbers
  that \<open>numiter()\<close> yields are pairwise distinct, the first \<open>n\<close> calls of \<open>__get_id\<close> on
  an object, for \<open>n\<close> up to the length of that sequence, all return, and return \<open>n\<close>
  pairwise distinct strings.
\<close>

theorem C1_ids_distinct_until_exhausted:
  assumes "distinct fresh" and "n \<le> length fresh"
  shows "\<exists>ids. issued_ids fresh n = Some ids \<and> length ids = n \<and> distinct ids"
proof -
  from assms(2) have le: "n \<le> length (id_iter (ali_init fresh))" by (simp add: ali_init_def)
  have "issued_ids fresh n = Some (map str_nat (take n fresh))"
    unfolding issued_ids_def get_ids_within [OF le] by (simp add: ali_init_def)
  moreover have "distinct (map str_nat (take n fresh))"
    using assms(1) by (intro distinct_str_nat distinct_take)
  moreover have "length (map str_nat (take n fresh)) = n" using assms(2) by simp
  ultimately show ?thesis by blast
qed

theorem C1_ids_distinct_until_exhausted_witness:
  "distinct [0, 1, 2 :: nat] \<and> (3 :: nat) \<le> length [0, 1, 2 :: nat] \<and>
   issued_ids [0, 1, 2] 3 = Some [''0'', ''1'', ''2'']"
proof -
  have d: "distinct [0, 1, 2 :: nat]" by simp
  have l: "(3 :: nat) \<le> length [0, 1, 2 :: nat]" by simp
  have ev: "issued_ids [0, 1, 2] 3 = Some [''0'', ''1'', ''2'']"
    by (simp add: issued_ids_def ali_init_def get_id_def numeral_3_eq_3 str_nat.simps digit_char_def)
  from C1_ids_distinct_until_exhausted [OF d l] d l ev show ?thesis by simp
qed

text \<open>
  Whatever non-empty sequence \<open>numiter()\<close> yields, one call more than its length brings
  the first id back.
\<close>

lemma issued_ids_repeat:
  assumes "fresh \<noteq> []"
  shows "\<exists>ids. issued_ids fresh (Suc (length fresh)) = Some ids \<and> \<not> distinct ids"
proof -
  have "get_ids fresh (Suc (length fresh)) (ali_init fresh)
          = Inr (map str_nat (fresh @ [hd fresh]), (ali_init fresh)\<lparr>id_iter := tl fresh\<rparr>)"
    using get_ids_restart [OF assms, of "ali_init fresh"] by (simp add: ali_init_def)
  then have "issued_ids fresh (Suc (length fresh)) = Some (map str_nat (fresh @ [hd fresh]))"
    by (simp add: issued_ids_def)
  moreover have "\<not> distinct (map str_nat (fresh @ [hd fresh]))"
    using assms by (cases fresh) auto
  ultimately show ?thesis by blast
qed

text \<open>
  C1 as stated fails: with an iterator of three numbers the fourth call re-creates the
  iterator and returns the first id again.
\<close>

theorem C1_ids_repeat_counterexample:
  "issued_ids [0, 1, 2] 4 = Some [''0'', ''1'', ''2'', ''0''] \<and>
   \<not> distinct [''0'', ''1'', ''2'', ''0'']"
  by (simp add: issued_ids_def ali_init_def get_id_def numeral_eq_Suc str_nat.simps digit_char_def)


section \<open>Proofs: waiting for a result\<close>

lemma foldl_apply_event_post_res:
  "\<forall>r. Reply i r \<notin> set w \<Longrightarrow> post_res (foldl apply_event s w) i = post_res s i"
proof (induction w arbitrary: s)
  case Nil
  then show ?case by simp
next
  case (Cons e w)
  then show ?case by (cases e) auto
qed

lemma foldl_apply_event_flag:
  "breack_flag (foldl apply_event s w) = (breack_flag s \<or> Timer_fire \<in> set w)"
proof (induction w arbitrary: s)
  case Nil
  then show ?case by simp
next
  case (Cons e w)
  then show ?case by (cases e) auto
qed

lemma poll_times_out:
  assumes "post_res s i = None"
    and "breack_flag s \<or> Timer_fire \<in> set (concat (take n ws))"
    and "\<forall>r. Reply i r \<notin> set (concat (take n ws))"
  shows "\<exists>s' rest. poll i ws s = Some (s', rest) \<and> post_res s' i = Some False"
  using assms
proof (induction ws arbitrary: s n)
  case Nil
  then show ?case by simp
next
  case (Cons w ws)
  show ?case
  proof (cases "breack_flag s")
    case True
    with Cons.prems(1) show ?thesis by simp
  next
    case False
    with Cons.prems(2) obtain m where n: "n = Suc m" by (cases n) auto
    let ?s1 = "foldl apply_event s w"
    have a: "post_res ?s1 i = None"
      using Cons.prems(1,3) n by (simp add: foldl_apply_event_post_res)
    have b: "breack_flag ?s1 \<or> Timer_fire \<in> set (concat (take m ws))"
      using Cons.prems(2) False n by (auto simp: foldl_apply_event_flag)
    have c: "\<forall>r. Reply i r \<notin> set (concat (take m ws))"
      using Cons.prems(3) n by simp
    from Cons.IH [OF a b c] False Cons.prems(1) show ?thesis by simp
  qed
qed

text \<open>
  C3, as amended. If no result is on record for the id when the wait begins, the timer
  callback runs during one of the first \<open>n\<close> sleeps of the loop, and no result for the id
  is recorded during these \<open>n\<close> sleeps (that is, up to the moment at which the loop looks
  at the flag), then \<open>__get_post_res\<close> returns \<open>False\<close>, the map holds no entry for the id
  afterwards, and the flag is down again.
\<close>

theorem C3_timeout_returns_false:
  assumes "post_res s i = None"
    and "Timer_fire \<in> set (concat (take n ws))"
    and "\<forall>r. Reply i r \<notin> set (concat (take n ws))"
  shows "\<exists>s' rest. ali_get_post_res i ws s = Some (Inr (False, s', rest)) \<and>
           post_res s' i = None \<and> \<not> breack_flag s'"
proof -
  from poll_times_out [OF assms(1) _ assms(3)] assms(2)
  obtain s1 rest where "poll i ws s = Some (s1, rest)" and "post_res s1 i = Some False"
    by blast
  then show ?thesis by (simp add: ali_get_post_res_def)
qed

theorem C3_timeout_returns_false_witness:
  "post_res (ali_init [0, 1, 2]) ''1'' = None \<and>
   Timer_fire \<in> set (concat (take 2 [[Reply ''0'' True], [Timer_fire], [Reply ''1'' True]])) \<and>
   returned (ali_get_post_res ''1'' [[Reply ''0'' True], [Timer_fire], [Reply ''1'' True]]
              (ali_init [0, 1, 2])) = Some False"
proof -
  let ?ws = "[[Reply ''0'' True], [Timer_fire], [Reply ''1'' True]]"
  have a: "post_res (ali_init [0, 1, 2]) ''1'' = None" by (simp add: ali_init_def)
  have b: "Timer_fire \<in> set (concat (take 2 ?ws))" by (simp add: numeral_2_eq_2)
  have c: "\<forall>r. Reply ''1'' r \<notin> set (concat (take 2 ?ws))" by (simp add: numeral_2_eq_2)
  from C3_timeout_returns_false [OF a b c]
  have "returned (ali_get_post_res ''1'' ?ws (ali_init [0, 1, 2])) = Some False"
    by (auto simp: returned_def)
  with a b show ?thesis by simp
qed

text \<open>
  C3 as stated fails: no result for the id \<open>1\<close> is on record when the flag is raised, the
  result arrives after the timer callback and before the loop wakes up, and the loop,
  which asks for the result before it looks at the flag, returns that result.
\<close>

theorem C3_late_result_counterexample:
  "post_res (ali_init [0, 1, 2]) ''1'' = None \<and>
   returned (ali_get_post_res ''1'' [[Timer_fire, Reply ''1'' True]] (ali_init [0, 1, 2]))
     = Some True"
  by (simp add: returned_def ali_get_post_res_def ali_init_def)


end
